theory Spec2Isabelle
  imports Complex_Main "HOL-Library.Char_ord" "HOL-Library.List_Lexorder"
    "HOL-Library.Product_Lexorder"
begin

section \<open>Record tables\<close>

text \<open>
  The utilities of \<^verbatim>\<open>src/utils/func_utils.py\<close> and \<^verbatim>\<open>src/utils/metrics.py\<close> work on
  pandas data frames. A frame is modelled as a header (column name and column dtype, in
  column order) and the list of its rows; a cell is a text value, a number, or the missing
  value (pandas' \<^verbatim>\<open>None\<close>/\<^verbatim>\<open>NaN\<close>, which the model does not tell apart). Numbers
  are rationals: float64 arithmetic is idealised as exact arithmetic, and the one float
  value the code can produce that is no number, \<^verbatim>\<open>NaN\<close>, is made explicit wherever it
  can arise. The dtype is the stored attribute that \<^verbatim>\<open>dataframe[column].dtype\<close> reads:
  \<^verbatim>\<open>object\<close> for columns holding Python objects (text, possibly mixed with other
  values), a numeric dtype otherwise.
\<close>

datatype cell = Str string | Num rat | Null

datatype dtype = ObjectD | NumberD

datatype error = AttributeError | KeyError | TypeError | ValueError | MergeError

record table =
  header :: "(string \<times> dtype) list"
  rows :: "cell list list"

definition columns :: "table \<Rightarrow> string list" where
  "columns df = map fst (header df)"

definition dtypes :: "table \<Rightarrow> dtype list" where
  "dtypes df = map snd (header df)"

text \<open>Frames as the loaders build them: distinct column names, every row one cell per column.\<close>

definition wf_table :: "table \<Rightarrow> bool" where
  "wf_table df \<longleftrightarrow>
     distinct (columns df) \<and> list_all (\<lambda>r. length r = length (header df)) (rows df)"

fun index_of :: "'a \<Rightarrow> 'a list \<Rightarrow> nat option" where
  "index_of x [] = None"
| "index_of x (y # ys) = (if x = y then Some 0 else map_option Suc (index_of x ys))"

definition column_vals :: "table \<Rightarrow> nat \<Rightarrow> cell list" where
  "column_vals df i = map (\<lambda>r. r ! i) (rows df)"

text \<open>\<^verbatim>\<open>dataframe[name]\<close>: the column's values, \<^verbatim>\<open>KeyError\<close> when there is no such column.\<close>

definition series :: "table \<Rightarrow> string \<Rightarrow> error + cell list" where
  "series df name =
     (case index_of name (columns df) of
        None \<Rightarrow> Inl KeyError
      | Some i \<Rightarrow> Inr (column_vals df i))"

text \<open>
  \<^verbatim>\<open>dataframe[name] = values\<close>: an existing column is overwritten where it stands, a new
  one is appended as the last column.
\<close>

definition set_column :: "table \<Rightarrow> string \<Rightarrow> dtype \<Rightarrow> cell list \<Rightarrow> table" where
  "set_column df name dt vals =
     (case index_of name (columns df) of
        Some i \<Rightarrow>
          \<lparr>header = (header df)[i := (name, dt)],
           rows = map (\<lambda>(r, v). r[i := v]) (zip (rows df) vals)\<rparr>
      | None \<Rightarrow>
          \<lparr>header = header df @ [(name, dt)],
           rows = map (\<lambda>(r, v). r @ [v]) (zip (rows df) vals)\<rparr>)"


definition is_text :: "cell \<Rightarrow> bool" where
  "is_text v \<longleftrightarrow> (case v of Str s \<Rightarrow> True | _ \<Rightarrow> False)"

text \<open>
  The dtype pandas infers for a column built from Python values: numeric when it holds
  numbers (missing values become \<^verbatim>\<open>NaN\<close>), \<^verbatim>\<open>object\<close> otherwise.
\<close>

definition infer_dtype :: "cell list \<Rightarrow> dtype" where
  "infer_dtype vals =
     (if (\<exists>v \<in> set vals. v \<noteq> Null) \<and> (\<forall>v \<in> set vals. \<not> is_text v) then NumberD else ObjectD)"

section \<open>Text Normalizer: \<^verbatim>\<open>DataManager.fix_string_case\<close>\<close>

text \<open>
  \<^verbatim>\<open>unidecode\<close> is a transliteration table of the unidecode package; it is a parameter
  of the model. Its results are ASCII, so \<^verbatim>\<open>str.lower\<close> and \<^verbatim>\<open>str.capitalize\<close> only
  ever see ASCII text here and are modelled on the ASCII letters.
\<close>

definition lower_char :: "char \<Rightarrow> char" where
  "lower_char c =
     (if CHR ''A'' \<le> c \<and> c \<le> CHR ''Z'' then char_of (of_char c + (32 :: nat)) else c)"

definition upper_char :: "char \<Rightarrow> char" where
  "upper_char c =
     (if CHR ''a'' \<le> c \<and> c \<le> CHR ''z'' then char_of (of_char c - (32 :: nat)) else c)"

definition py_lower :: "string \<Rightarrow> string" where
  "py_lower s = map lower_char s"

definition py_capitalize :: "string \<Rightarrow> string" where
  "py_capitalize s = (case s of [] \<Rightarrow> [] | c # cs \<Rightarrow> upper_char c # map lower_char cs)"

definition remove_accents :: "(string \<Rightarrow> string) \<Rightarrow> cell \<Rightarrow> cell" where
  "remove_accents unidecode text =
     (case text of Str s \<Rightarrow> Str (unidecode s) | _ \<Rightarrow> text)"

text \<open>
  The \<^verbatim>\<open>.str\<close> accessor of a column. pandas validates the column first: it accepts a
  column that holds at least one text value or nothing but missing values, and raises
  \<^verbatim>\<open>AttributeError\<close> ("Can only use .str accessor with string values") on a column
  whose present values are all numbers. An accepted column is mapped value by value; a
  value that is not text yields the missing value.
\<close>

definition str_accessor_ok :: "cell list \<Rightarrow> bool" where
  "str_accessor_ok vals \<longleftrightarrow> (\<exists>v \<in> set vals. is_text v) \<or> (\<forall>v \<in> set vals. v = Null)"

definition str_method :: "(string \<Rightarrow> string) \<Rightarrow> cell list \<Rightarrow> error + cell list" where
  "str_method f vals =
     (if str_accessor_ok vals
      then Inr (map (\<lambda>v. case v of Str s \<Rightarrow> Str (f s) | _ \<Rightarrow> Null) vals)
      else Inl AttributeError)"

text \<open>
  One turn of the loop over \<^verbatim>\<open>dataframe.columns\<close>. The frame is updated in place by
  each of the three assignments, so the function returns the frame as the turn leaves it
  together with the exception raised, if any.
\<close>

definition fix_column :: "(string \<Rightarrow> string) \<Rightarrow> table \<Rightarrow> string \<Rightarrow> table \<times> error option" where
  "fix_column unidecode df column =
     (case index_of column (columns df) of
        None \<Rightarrow> (df, Some KeyError)
      | Some i \<Rightarrow>
          if dtypes df ! i = ObjectD then
            (let accents = map (remove_accents unidecode) (column_vals df i);
                 df1 = set_column df column (infer_dtype accents) accents
             in case str_method py_lower (column_vals df1 i) of
                  Inl e \<Rightarrow> (df1, Some e)
                | Inr lowered \<Rightarrow>
                    (let df2 = set_column df1 column ObjectD lowered
                     in case str_method py_capitalize (column_vals df2 i) of
                          Inl e \<Rightarrow> (df2, Some e)
                        | Inr capitalized \<Rightarrow> (set_column df2 column ObjectD capitalized, None)))
          else (df, None))"

fun fix_columns :: "(string \<Rightarrow> string) \<Rightarrow> table \<Rightarrow> string list \<Rightarrow> table \<times> error option" where
  "fix_columns unidecode df [] = (df, None)"
| "fix_columns unidecode df (column # rest) =
     (case fix_column unidecode df column of
        (df', Some e) \<Rightarrow> (df', Some e)
      | (df', None) \<Rightarrow> fix_columns unidecode df' rest)"

text \<open>
  \<^verbatim>\<open>fix_string_case\<close>: the first component is the argument frame as the call leaves it
  (it is also the value returned when no exception is raised), the second the exception.
\<close>

definition fix_string_case :: "(string \<Rightarrow> string) \<Rightarrow> table \<Rightarrow> table \<times> error option" where
  "fix_string_case unidecode df = fix_columns unidecode df (columns df)"

section \<open>Geocoding Enricher: \<^verbatim>\<open>DataManager.geocode_dataframe\<close>\<close>

text \<open>
  \<^verbatim>\<open>+\<close> on columns of dtype \<^verbatim>\<open>object\<close> works value by value. pandas leaves a position
  missing when either operand is missing there, concatenates two text values, and lets the
  \<^verbatim>\<open>TypeError\<close> of Python's \<^verbatim>\<open>+\<close> escape when a text meets a number.
\<close>

fun add_cell :: "cell \<Rightarrow> cell \<Rightarrow> error + cell" where
  "add_cell Null y = Inr Null"
| "add_cell x Null = Inr Null"
| "add_cell (Str a) (Str b) = Inr (Str (a @ b))"
| "add_cell (Num a) (Num b) = Inr (Num (a + b))"
| "add_cell x y = Inl TypeError"

fun collect :: "(error + 'a) list \<Rightarrow> error + 'a list" where
  "collect [] = Inr []"
| "collect (Inl e # rest) = Inl e"
| "collect (Inr v # rest) = (case collect rest of Inl e \<Rightarrow> Inl e | Inr vs \<Rightarrow> Inr (v # vs))"

text \<open>
  \<^verbatim>\<open>column + ", "\<close>: a column of a numeric dtype cannot be added to a text at all
  (numpy finds no loop for the operand types), whatever it holds.
\<close>

definition series_add_text :: "dtype \<Rightarrow> cell list \<Rightarrow> string \<Rightarrow> error + cell list" where
  "series_add_text dt xs s =
     (if dt = ObjectD then collect (map (\<lambda>x. add_cell x (Str s)) xs) else Inl TypeError)"

text \<open>\<^verbatim>\<open>left + right\<close> for a left column of dtype \<^verbatim>\<open>object\<close>.\<close>

definition series_add :: "cell list \<Rightarrow> cell list \<Rightarrow> error + cell list" where
  "series_add xs ys = collect (map (\<lambda>(x, y). add_cell x y) (zip xs ys))"

text \<open>
  The right-hand side of
  \<^verbatim>\<open>dataframe['municipio'] + ", " + dataframe['departamento'] + ", Colombia"\<close>.
\<close>

definition location_keys :: "table \<Rightarrow> error + cell list" where
  "location_keys df =
     (case index_of ''municipio'' (columns df) of
        None \<Rightarrow> Inl KeyError
      | Some i \<Rightarrow>
     (case series_add_text (dtypes df ! i) (column_vals df i) '', '' of
        Inl e \<Rightarrow> Inl e
      | Inr s1 \<Rightarrow>
     (case index_of ''departamento'' (columns df) of
        None \<Rightarrow> Inl KeyError
      | Some j \<Rightarrow>
     (case series_add s1 (column_vals df j) of
        Inl e \<Rightarrow> Inl e
      | Inr s2 \<Rightarrow> series_add_text ObjectD s2 '', Colombia''))))"

text \<open>\<^verbatim>\<open>Series.unique()\<close>: the values in order of appearance, each once.\<close>

definition unique :: "'a list \<Rightarrow> 'a list" where
  "unique xs = foldl (\<lambda>seen x. if x \<in> set seen then seen else seen @ [x]) [] xs"

text \<open>
  The geocoding service is a parameter: what \<^verbatim>\<open>self.geocode(location)\<close> returns for a
  query, the coordinates of a match or nothing (no match, or a service error that the rate
  limiter swallows). The loop appends one result per location; the model also records the
  queries sent, in order.
\<close>

type_synonym coords = "rat \<times> rat"

type_synonym geocoder = "cell \<Rightarrow> coords option"

fun geocode_loop ::
  "geocoder \<Rightarrow> cell list \<Rightarrow> coords option list \<Rightarrow> cell list \<Rightarrow> coords option list \<times> cell list" where
  "geocode_loop geocode [] out_coordinates calls = (out_coordinates, calls)"
| "geocode_loop geocode (location # rest) out_coordinates calls =
     geocode_loop geocode rest (out_coordinates @ [geocode location]) (calls @ [location])"

definition latitude :: "coords option \<Rightarrow> cell" where
  "latitude c = (case c of Some p \<Rightarrow> Num (fst p) | None \<Rightarrow> Null)"

definition longitude :: "coords option \<Rightarrow> cell" where
  "longitude c = (case c of Some p \<Rightarrow> Num (snd p) | None \<Rightarrow> Null)"

text \<open>The list of dictionaries, each written as its values for location, latitude, longitude.\<close>

definition location_data :: "cell list \<Rightarrow> coords option list \<Rightarrow> cell list list" where
  "location_data location_list out_coordinates =
     map (\<lambda>(i_pos, i_coordinate).
            [location_list ! i_pos, latitude i_coordinate, longitude i_coordinate])
         (enumerate 0 out_coordinates)"

text \<open>
  \<^verbatim>\<open>pd.DataFrame(location_data)\<close>: the columns are the keys of the dictionaries, so an
  empty list gives a frame with no column at all.
\<close>

definition location_frame :: "cell list list \<Rightarrow> table" where
  "location_frame records =
     (if records = [] then \<lparr>header = [], rows = []\<rparr>
      else \<lparr>header = [(''location'', infer_dtype (map (\<lambda>r. r ! 0) records)),
                      (''latitude'', infer_dtype (map (\<lambda>r. r ! 1) records)),
                      (''longitude'', infer_dtype (map (\<lambda>r. r ! 2) records))],
            rows = records\<rparr>)"

text \<open>
  \<^verbatim>\<open>left.merge(right, left_on=..., right_on=..., how='left')\<close> for two differently
  named key columns. Every left row, in order, is followed by its matches in the right
  frame, in order, or by missing values when it has none; missing keys match each other.
  A column name that both frames have gets the suffixes \<^verbatim>\<open>_x\<close> and \<^verbatim>\<open>_y\<close>; pandas 2
  raises \<^verbatim>\<open>MergeError\<close> when a suffix produces a name twice on one side.
\<close>

definition suffixed :: "string list \<Rightarrow> string \<Rightarrow> string \<times> dtype \<Rightarrow> string \<times> dtype" where
  "suffixed overlap suffix c = (if fst c \<in> set overlap then (fst c @ suffix, snd c) else c)"

definition merge_rows :: "nat \<Rightarrow> nat \<Rightarrow> nat \<Rightarrow> cell list list \<Rightarrow> cell list \<Rightarrow> cell list list" where
  "merge_rows i j width right_rows l =
     (case filter (\<lambda>r. r ! j = l ! i) right_rows of
        [] \<Rightarrow> [l @ replicate width Null]
      | matches \<Rightarrow> map (\<lambda>r. l @ r) matches)"

definition merge_left :: "table \<Rightarrow> table \<Rightarrow> string \<Rightarrow> string \<Rightarrow> error + table" where
  "merge_left left right left_on right_on =
     (case index_of left_on (columns left) of
        None \<Rightarrow> Inl KeyError
      | Some i \<Rightarrow>
     (case index_of right_on (columns right) of
        None \<Rightarrow> Inl KeyError
      | Some j \<Rightarrow>
          (let overlap = filter (\<lambda>c. c \<in> set (columns right)) (columns left);
               lhead = map (suffixed overlap ''_x'') (header left);
               rhead = map (suffixed overlap ''_y'') (header right)
           in if \<not> distinct (map fst lhead) \<or> \<not> distinct (map fst rhead) then Inl MergeError
              else Inr \<lparr>header = lhead @ rhead,
                        rows = concat (map (merge_rows i j (length (header right)) (rows right))
                                           (rows left))\<rparr>)))"

text \<open>
  What a call of \<^verbatim>\<open>geocode_dataframe\<close> does: \<open>frame_after\<close> is the argument frame as the
  call leaves it (the assignment to \<^verbatim>\<open>dataframe['geolocalizacion']\<close> updates it in
  place), \<open>returned\<close> the value returned or the exception raised, \<open>lookups\<close> the queries
  sent to the geocoding service in order, \<open>printed\<close> the lines printed.
\<close>

record enrichment =
  frame_after :: table
  returned :: "error + table"
  lookups :: "cell list"
  printed :: "string list"

definition enrich :: "geocoder \<Rightarrow> table \<Rightarrow> enrichment" where
  "enrich geocode df =
     (case location_keys df of
        Inl e \<Rightarrow> \<lparr>frame_after = df, returned = Inl e, lookups = [], printed = []\<rparr>
      | Inr keys \<Rightarrow>
          (let df1 = set_column df ''geolocalizacion'' ObjectD keys
           in case series df1 ''geolocalizacion'' of
                Inl e \<Rightarrow> \<lparr>frame_after = df1, returned = Inl e, lookups = [], printed = []\<rparr>
              | Inr geolocalizacion \<Rightarrow>
                  (let location_list = unique geolocalizacion;
                       (out_coordinates, calls) = geocode_loop geocode location_list [] [];
                       location_df = location_frame (location_data location_list out_coordinates)
                   in \<lparr>frame_after = df1,
                       returned = merge_left df1 location_df ''geolocalizacion'' ''location'',
                       lookups = calls, printed = []\<rparr>)))"

definition has_required_columns :: "table \<Rightarrow> bool" where
  "has_required_columns df \<longleftrightarrow>
     ''municipio'' \<in> set (columns df) \<and> ''departamento'' \<in> set (columns df)"

definition notice :: string where
  "notice = ''DataFrame does not contain required columns: municipio and departamento''"

definition geocode_dataframe :: "geocoder \<Rightarrow> table \<Rightarrow> enrichment" where
  "geocode_dataframe geocode df =
     (if has_required_columns df then enrich geocode df
      else \<lparr>frame_after = df, returned = Inr df, lookups = [], printed = [notice]\<rparr>)"

text \<open>
  The same method on references, for what the caller's objects look like afterwards. The
  store maps a reference to the frame it denotes, \<open>managed\<close> is \<^verbatim>\<open>self.dataframe\<close>
  (\<^verbatim>\<open>None\<close> or a reference) and \<open>fresh\<close> the next unused reference. The argument is
  \<^verbatim>\<open>None\<close> (the default) or a reference; the merge builds a new frame, and the local
  name \<^verbatim>\<open>dataframe\<close> is rebound to it before the test
  \<^verbatim>\<open>dataframe is self.dataframe\<close> is made.
\<close>

record manager =
  store :: "nat \<Rightarrow> table option"
  managed :: "nat option"
  fresh :: nat

definition manager_geocode_dataframe ::
  "geocoder \<Rightarrow> manager \<Rightarrow> nat option \<Rightarrow> manager \<times> (error + nat)" where
  "manager_geocode_dataframe geocode m arg =
     (case (case arg of None \<Rightarrow> managed m | Some a \<Rightarrow> Some a) of
        None \<Rightarrow> (m, Inl AttributeError)
      | Some a \<Rightarrow>
     (case store m a of
        None \<Rightarrow> (m, Inl AttributeError)
      | Some df \<Rightarrow>
          (let out = geocode_dataframe geocode df;
               m1 = m\<lparr>store := (store m)(a \<mapsto> frame_after out)\<rparr>
           in if has_required_columns df then
                (case returned out of
                   Inl e \<Rightarrow> (m1, Inl e)
                 | Inr merged \<Rightarrow>
                     (let b = fresh m1;
                          m2 = m1\<lparr>store := (store m1)(b \<mapsto> merged), fresh := Suc b\<rparr>;
                          m3 = (if Some b = managed m2 then m2\<lparr>managed := Some b\<rparr> else m2)
                      in (m3, Inr b)))
              else (m1, Inr a))))"

text \<open>\<^verbatim>\<open>fix_string_case\<close> on references: the frame is changed where it is and returned.\<close>

definition manager_fix_string_case ::
  "(string \<Rightarrow> string) \<Rightarrow> manager \<Rightarrow> nat \<Rightarrow> manager \<times> (error + nat)" where
  "manager_fix_string_case unidecode m a =
     (case store m a of
        None \<Rightarrow> (m, Inl AttributeError)
      | Some df \<Rightarrow>
          (let (df', e) = fix_string_case unidecode df;
               m1 = m\<lparr>store := (store m)(a \<mapsto> df')\<rparr>
           in (m1, case e of Some x \<Rightarrow> Inl x | None \<Rightarrow> Inr a)))"

section \<open>Metrics Computer: \<^verbatim>\<open>MetricsComputation\<close>\<close>













subsection \<open>\<^verbatim>\<open>grouped_table\<close>\<close>

text \<open>
  An entry of \<^verbatim>\<open>aggregation_columns\<close>: the output name, the source column and the
  aggregation function, which maps the source column's values within one group to a cell.
\<close>

type_synonym aggregation = "string \<times> string \<times> (cell list \<Rightarrow> cell)"

definition agg_name :: "aggregation \<Rightarrow> string" where
  "agg_name a = fst a"

definition agg_source :: "aggregation \<Rightarrow> string" where
  "agg_source a = fst (snd a)"

definition agg_func :: "aggregation \<Rightarrow> cell list \<Rightarrow> cell" where
  "agg_func a = snd (snd a)"

text \<open>The order pandas sorts cells by: numbers by value, text lexicographically, numbers first.\<close>

definition cell_rank :: "cell \<Rightarrow> nat \<times> rat \<times> string" where
  "cell_rank v = (case v of Num r \<Rightarrow> (0, r, []) | Str s \<Rightarrow> (1, 0, s) | Null \<Rightarrow> (2, 0, []))"

definition group_key :: "nat list \<Rightarrow> cell list \<Rightarrow> cell list" where
  "group_key idx r = map (\<lambda>i. r ! i) idx"

definition indices_of :: "string list \<Rightarrow> string list \<Rightarrow> nat list option" where
  "indices_of names cols = those (map (\<lambda>c. index_of c cols) names)"

text \<open>
  \<^verbatim>\<open>self.data.groupby(group_by_columns).agg(**aggregation_columns).reset_index()\<close>:
  rows with a missing group key are left out, the groups come in ascending key order, and
  \<^verbatim>\<open>reset_index\<close> refuses to insert a key column whose name is already there.
\<close>

definition groupby_agg :: "table \<Rightarrow> string list \<Rightarrow> aggregation list \<Rightarrow> error + table" where
  "groupby_agg data group_by_columns aggregation_columns =
     (if group_by_columns = [] then Inl ValueError
      else case indices_of group_by_columns (columns data) of
        None \<Rightarrow> Inl KeyError
      | Some gidx \<Rightarrow>
     (if aggregation_columns = [] then Inl TypeError
      else case indices_of (map agg_source aggregation_columns) (columns data) of
        None \<Rightarrow> Inl KeyError
      | Some sidx \<Rightarrow>
          (let kept = filter (\<lambda>r. Null \<notin> set (group_key gidx r)) (rows data);
               keys = sort_key (map cell_rank) (unique (map (group_key gidx) kept));
               out_rows =
                 map (\<lambda>k. k @ map (\<lambda>(a, s). agg_func a
                                     (map (\<lambda>r. r ! s) (filter (\<lambda>r. group_key gidx r = k) kept)))
                                   (zip aggregation_columns sidx))
                     keys;
               names = group_by_columns @ map agg_name aggregation_columns
           in if \<not> distinct names then Inl ValueError
              else Inr \<lparr>header = map (\<lambda>(i, c). (c, infer_dtype (map (\<lambda>r. r ! i) out_rows)))
                                     (enumerate 0 names),
                        rows = out_rows\<rparr>)))"

text \<open>\<^verbatim>\<open>grouped_data.columns = names\<close>: the lengths must agree.\<close>

definition assign_columns :: "table \<Rightarrow> string list \<Rightarrow> error + table" where
  "assign_columns df names =
     (if length names = length (header df)
      then Inr (df\<lparr>header := zip names (dtypes df)\<rparr>)
      else Inl ValueError)"

text \<open>
  \<^verbatim>\<open>sort_values(by=..., ascending=False)\<close>. The rows keep their index labels, here
  paired with them. Rows whose sort value is missing go last; the others are sorted in
  descending order (reverse, sort ascending, reverse), and comparing a text with a number
  raises \<^verbatim>\<open>TypeError\<close>. pandas sorts with numpy's quicksort, which fixes no order among
  equal values; the model keeps their original order.
\<close>

definition sort_values_desc ::
  "table \<Rightarrow> string \<Rightarrow> error + (nat \<times> cell list) list" where
  "sort_values_desc df by =
     (case index_of by (columns df) of
        None \<Rightarrow> Inl KeyError
      | Some i \<Rightarrow>
          (let labelled = enumerate 0 (rows df);
               present = filter (\<lambda>(l, r). r ! i \<noteq> Null) labelled;
               missing = filter (\<lambda>(l, r). r ! i = Null) labelled
           in if (\<exists>(l, r) \<in> set present. is_text (r ! i)) \<and>
                 (\<exists>(l, r) \<in> set present. \<not> is_text (r ! i))
              then Inl TypeError
              else Inr (rev (sort_key (\<lambda>(l, r). cell_rank (r ! i)) (rev present)) @ missing)))"

text \<open>
  \<^verbatim>\<open>reset_index()\<close>: the index labels become the first column, named \<^verbatim>\<open>index\<close>, or
  \<^verbatim>\<open>level_0\<close> when there is a column \<^verbatim>\<open>index\<close> already.
\<close>

definition reset_index :: "(string \<times> dtype) list \<Rightarrow> (nat \<times> cell list) list \<Rightarrow> error + table" where
  "reset_index cols labelled =
     (let name = (if ''index'' \<in> set (map fst cols) then ''level_0'' else ''index'')
      in if name \<in> set (map fst cols) then Inl ValueError
         else Inr \<lparr>header = (name, NumberD) # cols,
                   rows = map (\<lambda>(l, r). Num (of_nat l) # r) labelled\<rparr>)"

definition remove_nth :: "nat \<Rightarrow> 'a list \<Rightarrow> 'a list" where
  "remove_nth i xs = take i xs @ drop (Suc i) xs"

text \<open>\<^verbatim>\<open>drop(columns=[name])\<close>.\<close>

definition drop_column :: "table \<Rightarrow> string \<Rightarrow> error + table" where
  "drop_column df name =
     (case index_of name (columns df) of
        None \<Rightarrow> Inl KeyError
      | Some i \<Rightarrow> Inr \<lparr>header = remove_nth i (header df), rows = map (remove_nth i) (rows df)\<rparr>)"

text \<open>\<^verbatim>\<open>head(n)\<close> is the slice \<^verbatim>\<open>[:n]\<close>: a negative \<open>n\<close> leaves out the last \<open>-n\<close> rows.\<close>

definition head :: "int \<Rightarrow> 'a list \<Rightarrow> 'a list" where
  "head n xs = (if 0 \<le> n then take (nat n) xs else take (length xs - nat (- n)) xs)"

definition grouped_table ::
  "table \<Rightarrow> string list \<Rightarrow> aggregation list \<Rightarrow> string \<Rightarrow> int \<Rightarrow> error + table" where
  "grouped_table data group_by_columns aggregation_columns sort_by_column top_n =
     (case groupby_agg data group_by_columns aggregation_columns of
        Inl e \<Rightarrow> Inl e
      | Inr grouped_data \<Rightarrow>
     (let aggregation_column_names = map agg_name aggregation_columns
      in case assign_columns grouped_data (group_by_columns @ aggregation_column_names) of
        Inl e \<Rightarrow> Inl e
      | Inr renamed \<Rightarrow>
     (case sort_values_desc renamed sort_by_column of
        Inl e \<Rightarrow> Inl e
      | Inr sorted_rows \<Rightarrow>
     (case reset_index (header renamed) sorted_rows of
        Inl e \<Rightarrow> Inl e
      | Inr with_index \<Rightarrow>
     (case drop_column with_index ''index'' of
        Inl e \<Rightarrow> Inl e
      | Inr sorted_data \<Rightarrow> Inr (sorted_data\<lparr>rows := head top_n (rows sorted_data)\<rparr>))))))"

text \<open>The default of \<^verbatim>\<open>top_n\<close>.\<close>

definition grouped_table_default ::
  "table \<Rightarrow> string list \<Rightarrow> aggregation list \<Rightarrow> string \<Rightarrow> error + table" where
  "grouped_table_default data group_by_columns aggregation_columns sort_by_column =
     grouped_table data group_by_columns aggregation_columns sort_by_column 10"

text \<open>pandas' \<^verbatim>\<open>sum\<close> of a group: the sum of its numbers, missing values skipped.\<close>

definition agg_sum :: "cell list \<Rightarrow> cell" where
  "agg_sum vals = Num (sum_list (map (\<lambda>v. case v of Num r \<Rightarrow> r | _ \<Rightarrow> 0) vals))"

section \<open>Observations and example frames\<close>


text \<open>Frames, a geocoding service and a manager to run the methods on.\<close>

definition cities :: table where
  "cities =
     \<lparr>header = [(''municipio'', ObjectD), (''departamento'', ObjectD), (''produccion'', NumberD)],
      rows = [[Str ''Bogota'', Str ''Cundinamarca'', Num 10],
              [Str ''Cali'', Str ''Valle'', Num 0],
              [Str ''Bogota'', Str ''Cundinamarca'', Num 5]]\<rparr>"


definition atlas :: geocoder where
  "atlas query = (if query = Str ''Bogota, Cundinamarca, Colombia'' then Some (4, - 74) else None)"

definition crops :: table where
  "crops = \<lparr>header = [(''municipio'', ObjectD), (''cultivo'', ObjectD)],
            rows = [[Str ''Cali'', Str ''Maiz'']]\<rparr>"


text \<open>A column name as the merge writes it: with the suffix when it is one of \<open>names\<close>.\<close>

definition with_suffix :: "string set \<Rightarrow> string \<Rightarrow> string \<Rightarrow> string" where
  "with_suffix names suffix c = (if c \<in> names then c @ suffix else c)"



definition cities_enriched :: table where
  "cities_enriched =
     \<lparr>header = [(''municipio'', ObjectD), (''departamento'', ObjectD), (''produccion'', NumberD),
                (''geolocalizacion'', ObjectD), (''location'', ObjectD),
                (''latitude'', NumberD), (''longitude'', NumberD)],
      rows = [[Str ''Bogota'', Str ''Cundinamarca'', Num 10,
               Str ''Bogota, Cundinamarca, Colombia'', Str ''Bogota, Cundinamarca, Colombia'',
               Num 4, Num (- 74)],
              [Str ''Cali'', Str ''Valle'', Num 0,
               Str ''Cali, Valle, Colombia'', Str ''Cali, Valle, Colombia'', Null, Null],
              [Str ''Bogota'', Str ''Cundinamarca'', Num 5,
               Str ''Bogota, Cundinamarca, Colombia'', Str ''Bogota, Cundinamarca, Colombia'',
               Num 4, Num (- 74)]]\<rparr>"

text \<open>
  Descending order with missing values last: of two values, the later one is missing, or
  both are present and the later one does not rank above the earlier one.
\<close>

definition precedes :: "cell \<Rightarrow> cell \<Rightarrow> bool" where
  "precedes a b \<longleftrightarrow> b = Null \<or> (a \<noteq> Null \<and> cell_rank b \<le> cell_rank a)"

definition descending :: "cell list \<Rightarrow> bool" where
  "descending vals \<longleftrightarrow> sorted_wrt precedes vals"

definition harvest :: table where
  "harvest =
     \<lparr>header = [(''anio'', NumberD), (''valor'', NumberD)],
      rows = [[Num 2020, Num 5], [Num 2021, Num 10], [Num 2020, Num 7]]\<rparr>"

definition total_by_year :: "aggregation list" where
  "total_by_year = [(''total'', ''valor'', agg_sum)]"

definition index_by_year :: "aggregation list" where
  "index_by_year = [(''index'', ''valor'', agg_sum)]"

definition codes :: table where
  "codes = \<lparr>header = [(''codigo'', ObjectD), (''cultivo'', ObjectD)],
            rows = [[Str ''aB'', Str ''MAIZ''], [Num 1, Str ''yuca'']]\<rparr>"

definition numbers_as_objects :: table where
  "numbers_as_objects = \<lparr>header = [(''codigo'', ObjectD)], rows = [[Num 1], [Num 2]]\<rparr>"

definition cities_keyed :: table where
  "cities_keyed =
     \<lparr>header = [(''municipio'', ObjectD), (''departamento'', ObjectD), (''produccion'', NumberD),
                (''geolocalizacion'', ObjectD)],
      rows = [[Str ''Bogota'', Str ''Cundinamarca'', Num 10, Str ''Bogota, Cundinamarca, Colombia''],
              [Str ''Cali'', Str ''Valle'', Num 0, Str ''Cali, Valle, Colombia''],
              [Str ''Bogota'', Str ''Cundinamarca'', Num 5, Str ''Bogota, Cundinamarca, Colombia'']]\<rparr>"

definition office :: manager where
  "office = \<lparr>store = [0 \<mapsto> cities], managed = Some 0, fresh = 1\<rparr>"

text \<open>What the Text Normalizer makes of a cell of a text column.\<close>

definition normalized :: "(string \<Rightarrow> string) \<Rightarrow> cell \<Rightarrow> cell" where
  "normalized unidecode v =
     (case v of Str s \<Rightarrow> Str (py_capitalize (py_lower (unidecode s))) | _ \<Rightarrow> v)"

text \<open>A column of text: every value is a text or missing.\<close>

definition text_or_null :: "cell list \<Rightarrow> bool" where
  "text_or_null vals \<longleftrightarrow> list_all (\<lambda>v. v = Null \<or> is_text v) vals"

text \<open>The frame with the text columns named in \<open>names\<close> normalised.\<close>

definition normalize_columns :: "(string \<Rightarrow> string) \<Rightarrow> string set \<Rightarrow> table \<Rightarrow> table" where
  "normalize_columns unidecode names df =
     \<lparr>header = header df,
      rows = map (\<lambda>r. map (\<lambda>(c, v). if fst c \<in> names \<and> snd c = ObjectD
                                     then normalized unidecode v else v)
                          (zip (header df) r))
                 (rows df)\<rparr>"

definition text_columns :: "table \<Rightarrow> bool" where
  "text_columns df \<longleftrightarrow>
     list_all (\<lambda>i. dtypes df ! i = ObjectD \<longrightarrow> text_or_null (column_vals df i))
       [0 ..< length (header df)]"

text \<open>The Location Key of a row with the given municipality and department.\<close>

definition row_key :: "cell \<Rightarrow> cell \<Rightarrow> cell" where
  "row_key m d =
     (case m of
        Str a \<Rightarrow> (case d of Str b \<Rightarrow> Str (a @ '', '' @ b @ '', Colombia'') | _ \<Rightarrow> Null)
      | _ \<Rightarrow> Null)"

section \<open>Properties\<close>

lemma index_of_None: "index_of x xs = None \<longleftrightarrow> x \<notin> set xs"
  by (induction xs) auto

lemma index_of_Some: "index_of x xs = Some i \<Longrightarrow> i < length xs \<and> xs ! i = x"
  by (induction xs arbitrary: i) (auto split: if_splits)

lemma index_of_mem: "x \<in> set xs \<Longrightarrow> \<exists>i. index_of x xs = Some i"
  using index_of_None [of x xs] by (cases "index_of x xs") auto


lemma index_of_append_notin:
  "x \<notin> set xs \<Longrightarrow> index_of x (xs @ ys) = map_option (\<lambda>k. length xs + k) (index_of x ys)"
proof (induction xs)
  case Nil
  then show ?case by (cases "index_of x ys") simp_all
next
  case (Cons a xs)
  then show ?case by (cases "index_of x ys") simp_all
qed

lemma index_of_nth: "distinct xs \<Longrightarrow> i < length xs \<Longrightarrow> index_of (xs ! i) xs = Some i"
proof (induction xs arbitrary: i)
  case Nil
  then show ?case by simp
next
  case (Cons a xs)
  then show ?case by (cases i) auto
qed










lemma collect_map_Inr: "collect (map Inr ys) = Inr ys"
  by (induction ys) auto



lemma columns_set_column:
  "columns (set_column df name dt vals) =
     (if name \<in> set (columns df) then columns df else columns df @ [name])"
proof (cases "index_of name (columns df)")
  case None
  then have "name \<notin> set (columns df)" by (simp add: index_of_None)
  then show ?thesis using None
    by (simp add: set_column_def) (simp add: columns_def)
next
  case (Some i)
  then have i: "i < length (columns df)" "columns df ! i = name" and mem: "name \<in> set (columns df)"
    using index_of_Some [OF Some] index_of_None [of name "columns df"] by auto
  have "map fst ((header df)[i := (name, dt)]) = (columns df)[i := name]"
    by (simp add: columns_def map_update)
  also have "\<dots> = columns df" using i by (metis list_update_id)
  finally show ?thesis using Some mem by (simp add: set_column_def columns_def)
qed

lemma length_rows_set_column:
  "length vals = length (rows df) \<Longrightarrow> length (rows (set_column df name dt vals)) = length (rows df)"
  by (simp add: set_column_def split: option.splits)

lemma wf_table_rows: "wf_table df \<Longrightarrow> n < length (rows df) \<Longrightarrow> length (rows df ! n) = length (header df)"
  by (simp add: wf_table_def list_all_length)

lemma series_set_column:
  assumes "wf_table df" and "length vals = length (rows df)"
  shows "series (set_column df name dt vals) name = Inr vals"
proof (cases "index_of name (columns df)")
  case None
  then have notin: "name \<notin> set (columns df)" by (simp add: index_of_None)
  have cols: "columns (set_column df name dt vals) = columns df @ [name]"
    using notin by (simp add: columns_set_column)
  have idx: "index_of name (columns df @ [name]) = Some (length (header df))"
    using notin by (simp add: index_of_append_notin columns_def)
  have "column_vals (set_column df name dt vals) (length (header df)) = vals"
  proof (rule nth_equalityI)
    show "length (column_vals (set_column df name dt vals) (length (header df))) = length vals"
      using assms(2) None by (simp add: column_vals_def set_column_def)
  next
    fix n assume "n < length (column_vals (set_column df name dt vals) (length (header df)))"
    then have n: "n < length (rows df)" "n < length vals"
      using assms(2) None by (simp_all add: column_vals_def set_column_def)
    then show "column_vals (set_column df name dt vals) (length (header df)) ! n = vals ! n"
      using None wf_table_rows [OF assms(1), of n]
      by (simp add: column_vals_def set_column_def nth_append)
  qed
  then show ?thesis using cols idx by (simp add: series_def)
next
  case (Some i)
  then have i: "i < length (header df)" and mem: "name \<in> set (columns df)"
    using index_of_Some [OF Some] index_of_None [of name "columns df"] by (auto simp: columns_def)
  have cols: "columns (set_column df name dt vals) = columns df"
    using mem by (simp add: columns_set_column)
  have "column_vals (set_column df name dt vals) i = vals"
  proof (rule nth_equalityI)
    show "length (column_vals (set_column df name dt vals) i) = length vals"
      using assms(2) Some by (simp add: column_vals_def set_column_def)
  next
    fix n assume "n < length (column_vals (set_column df name dt vals) i)"
    then have n: "n < length (rows df)" "n < length vals"
      using assms(2) Some by (simp_all add: column_vals_def set_column_def)
    then show "column_vals (set_column df name dt vals) i ! n = vals ! n"
      using Some i wf_table_rows [OF assms(1), of n]
      by (simp add: column_vals_def set_column_def)
  qed
  then show ?thesis using cols Some by (simp add: series_def)
qed




text \<open>
  Claim C4. When the frame lacks the column \<^verbatim>\<open>municipio\<close> or the column
  \<^verbatim>\<open>departamento\<close>, \<^verbatim>\<open>geocode_dataframe\<close> leaves the frame as it is, returns it,
  sends no query to the geocoding service and prints its notice; no exception is raised.
  On references: the object returned is the argument itself and the store is unchanged.
\<close>

theorem geocode_dataframe_missing_columns:
  assumes "''municipio'' \<notin> set (columns df) \<or> ''departamento'' \<notin> set (columns df)"
  shows "geocode_dataframe geocode df =
           \<lparr>frame_after = df, returned = Inr df, lookups = [], printed = [notice]\<rparr> \<and>
         (store m a = Some df \<longrightarrow> manager_geocode_dataframe geocode m (Some a) = (m, Inr a))"
proof -
  have no: "\<not> has_required_columns df"
    using assms by (auto simp: has_required_columns_def)
  then have out: "geocode_dataframe geocode df =
      \<lparr>frame_after = df, returned = Inr df, lookups = [], printed = [notice]\<rparr>"
    by (simp add: geocode_dataframe_def)
  have "manager_geocode_dataframe geocode m (Some a) = (m, Inr a)" if "store m a = Some df"
  proof -
    have "(store m)(a \<mapsto> df) = store m" using that by (simp add: fun_upd_idem)
    then show ?thesis using that no out
      by (simp add: manager_geocode_dataframe_def)
  qed
  then show ?thesis using out by simp
qed

theorem geocode_dataframe_missing_columns_witness:
  "geocode_dataframe atlas crops =
     \<lparr>frame_after = crops, returned = Inr crops, lookups = [], printed = [notice]\<rparr> \<and>
   manager_geocode_dataframe atlas \<lparr>store = [0 \<mapsto> crops], managed = None, fresh = 1\<rparr> (Some 0) =
     (\<lparr>store = [0 \<mapsto> crops], managed = None, fresh = 1\<rparr>, Inr 0)"
proof -
  have h: "''municipio'' \<notin> set (columns crops) \<or> ''departamento'' \<notin> set (columns crops)"
    by (simp add: columns_def crops_def)
  show ?thesis
    using geocode_dataframe_missing_columns [OF h, of atlas
        "\<lparr>store = [0 \<mapsto> crops], managed = None, fresh = 1\<rparr>" 0]
    by simp
qed



lemma required_cities: "has_required_columns cities"
  by (simp add: has_required_columns_def cities_def columns_def)



lemma wf_set_column:
  assumes "wf_table df" and "length vals = length (rows df)"
  shows "wf_table (set_column df name dt vals)"
proof -
  have d: "distinct (columns (set_column df name dt vals))"
    using assms(1) by (simp add: columns_set_column wf_table_def)
  have "length r = length (header (set_column df name dt vals))"
    if "r \<in> set (rows (set_column df name dt vals))" for r
  proof (cases "index_of name (columns df)")
    case None
    with that obtain r0 v where "r = r0 @ [v]" "r0 \<in> set (rows df)"
      by (auto simp: set_column_def dest: set_zip_leftD)
    then show ?thesis using None assms(1)
      by (auto simp: set_column_def wf_table_def list_all_iff)
  next
    case (Some i)
    with that obtain r0 v where "r = r0[i := v]" "r0 \<in> set (rows df)"
      by (auto simp: set_column_def dest: set_zip_leftD)
    then show ?thesis using Some assms(1)
      by (auto simp: set_column_def wf_table_def list_all_iff)
  qed
  then show ?thesis using d by (simp add: wf_table_def list_all_iff)
qed










lemma zip_map_self: "map f xs = ys \<Longrightarrow> zip xs ys = map (\<lambda>x. (x, f x)) xs"
  by (auto simp: zip_map2 zip_same_conv_map)





lemma length_rows_enriched:
  "length keys = length rs \<Longrightarrow>
   length (map (\<lambda>(r, k). r @ [k, a k, b k]) (zip rs keys)) = length rs"
  by simp








lemma with_suffix_id: "c \<notin> names \<Longrightarrow> with_suffix names sfx c = c"
  by (simp add: with_suffix_def)































lemma columns_groupby_agg:
  assumes "groupby_agg data gs as = Inr grouped"
  shows "columns grouped = gs @ map agg_name as" and "distinct (gs @ map agg_name as)"
proof -
  from assms obtain out_rows where
    d: "distinct (gs @ map agg_name as)" and
    g: "grouped = \<lparr>header = map (\<lambda>(i, c). (c, infer_dtype (map (\<lambda>r. r ! i) out_rows)))
                               (enumerate 0 (gs @ map agg_name as)),
                   rows = out_rows\<rparr>"
    by (auto simp: groupby_agg_def Let_def split: if_splits option.splits)
  have "map fst (map (\<lambda>(i, c). (c, infer_dtype (map (\<lambda>r. r ! i) out_rows)))
                               (enumerate 0 (gs @ map agg_name as))) =
        map snd (enumerate 0 (gs @ map agg_name as))"
    by (simp add: comp_def case_prod_beta del: map_snd_enumerate)
  then show "columns grouped = gs @ map agg_name as"
    by (simp add: g columns_def)
  show "distinct (gs @ map agg_name as)" by (rule d)
qed

lemma assign_columns_D:
  assumes "assign_columns df names = Inr renamed"
  shows "columns renamed = names" and "rows renamed = rows df"
  using assms by (auto simp: assign_columns_def columns_def dtypes_def split: if_splits)

lemma sorted_wrt_precedes_append:
  assumes "sorted_wrt precedes xs" and "\<forall>v \<in> set ys. v = Null"
  shows "sorted_wrt precedes (xs @ ys)"
proof -
  have "sorted_wrt precedes ys"
    by (rule sorted_wrt_mono_rel [of _ "\<lambda>x y. True"]) (use assms(2) in \<open>simp_all add: precedes_def\<close>)
  moreover have "\<forall>x \<in> set xs. \<forall>y \<in> set ys. precedes x y"
    using assms(2) by (simp add: precedes_def)
  ultimately show ?thesis using assms(1) by (simp add: sorted_wrt_append)
qed

lemma descending_sorted_rows:
  assumes "sort_values_desc df by = Inr sorted_rows"
  shows "\<exists>i. index_of by (columns df) = Some i \<and>
           descending (map (\<lambda>(l, r). r ! i) sorted_rows)"
proof -
  from assms obtain i where i: "index_of by (columns df) = Some i"
    and s: "sorted_rows =
      rev (sort_key (\<lambda>(l, r). cell_rank (r ! i))
             (rev (filter (\<lambda>(l, r). r ! i \<noteq> Null) (enumerate 0 (rows df))))) @
      filter (\<lambda>(l, r). r ! i = Null) (enumerate 0 (rows df))"
    by (auto simp: sort_values_desc_def Let_def split: option.splits if_splits)
  let ?val = "\<lambda>(l :: nat, r :: cell list). r ! i"
  let ?f = "\<lambda>(l :: nat, r :: cell list). cell_rank (r ! i)"
  let ?present = "filter (\<lambda>(l, r). r ! i \<noteq> Null) (enumerate 0 (rows df))"
  let ?missing = "filter (\<lambda>(l, r). r ! i = Null) (enumerate 0 (rows df))"
  let ?S = "sort_key ?f (rev ?present)"
  have "sorted (map ?f ?S)" by (rule sorted_sort_key)
  then have "sorted_wrt (\<lambda>x y. ?f x \<le> ?f y) ?S"
    by (simp only: sorted_wrt_map)
  then have "sorted_wrt (\<lambda>x y. ?f y \<le> ?f x) (rev ?S)"
    by (simp only: sorted_wrt_rev)
  then have r: "sorted_wrt (\<lambda>x y. cell_rank (?val y) \<le> cell_rank (?val x)) (rev ?S)"
    by (simp add: case_prod_beta)
  have nn: "\<forall>x \<in> set (rev ?S). ?val x \<noteq> Null" by auto
  have "sorted_wrt (\<lambda>x y. precedes (?val x) (?val y)) (rev ?S)"
    by (rule sorted_wrt_mono_rel [OF _ r]) (use nn in \<open>auto simp: precedes_def\<close>)
  then have a: "sorted_wrt precedes (map ?val (rev ?S))"
    by (simp only: sorted_wrt_map)
  have m: "\<forall>v \<in> set (map ?val ?missing). v = Null" by auto
  have "sorted_wrt precedes (map ?val (rev ?S) @ map ?val ?missing)"
    by (rule sorted_wrt_precedes_append [OF a m])
  then have "descending (map ?val sorted_rows)"
    by (simp add: descending_def s)
  then show ?thesis using i by blast
qed

lemma remove_nth_0: "remove_nth 0 xs = tl xs"
  by (simp add: remove_nth_def drop_Suc)

lemma grouped_table_D:
  assumes "grouped_table data gs as by top_n = Inr out"
    and "''index'' \<notin> set (gs @ map agg_name as)"
  shows "\<exists>(sorted_rows :: (nat \<times> cell list) list) i. columns out = gs @ map agg_name as \<and>
     index_of by (columns out) = Some i \<and>
     descending (map (\<lambda>(l, r). r ! i) sorted_rows) \<and>
     rows out = head top_n (map snd sorted_rows)"
proof -
  let ?names = "gs @ map agg_name as"
  from assms(1) obtain grouped renamed sorted_rows with_index sorted_data where
    g: "groupby_agg data gs as = Inr grouped" and
    a: "assign_columns grouped ?names = Inr renamed" and
    s: "sort_values_desc renamed by = Inr sorted_rows" and
    r: "reset_index (header renamed) sorted_rows = Inr with_index" and
    d: "drop_column with_index ''index'' = Inr sorted_data" and
    o: "out = sorted_data\<lparr>rows := head top_n (rows sorted_data)\<rparr>"
    by (auto simp: grouped_table_def Let_def split: sum.splits)
  have cr: "columns renamed = ?names" by (rule assign_columns_D(1) [OF a])
  have noidx: "''index'' \<notin> set (map fst (header renamed))"
    using assms(2) cr by (simp add: columns_def)
  have wi: "with_index = \<lparr>header = (''index'', NumberD) # header renamed,
       rows = map (\<lambda>(l, r). Num (of_nat l) # r) sorted_rows\<rparr>"
    using r noidx by (simp add: reset_index_def Let_def)
  have sd: "sorted_data = \<lparr>header = header renamed, rows = map snd sorted_rows\<rparr>"
    using d by (simp add: wi drop_column_def columns_def remove_nth_0 comp_def case_prod_beta)
  have co: "columns out = ?names"
    using cr by (simp add: o sd columns_def)
  have ro: "rows out = head top_n (map snd sorted_rows)"
    by (simp add: o sd)
  from descending_sorted_rows [OF s] obtain i where
    i: "index_of by (columns renamed) = Some i" and
    ds: "descending (map (\<lambda>(l, r). r ! i) sorted_rows)"
    by blast
  have i': "index_of by (columns out) = Some i" using i cr co by simp
  show ?thesis using co i' ds ro by blast
qed

lemma harvest_top_1:
  "grouped_table harvest [''anio''] total_by_year ''total'' 1 =
     Inr \<lparr>header = [(''anio'', NumberD), (''total'', NumberD)], rows = [[Num 2020, Num 12]]\<rparr>"
  by code_simp

lemma harvest_top_minus_1:
  "grouped_table harvest [''anio''] total_by_year ''total'' (- 1) =
     Inr \<lparr>header = [(''anio'', NumberD), (''total'', NumberD)], rows = [[Num 2020, Num 12]]\<rparr>"
  by code_simp

lemma harvest_index:
  "grouped_table harvest [''anio''] index_by_year ''index'' 10 =
     Inr \<lparr>header = [(''level_0'', NumberD), (''anio'', NumberD)],
          rows = [[Num 0, Num 2020], [Num 1, Num 2021]]\<rparr>"
  by code_simp

lemma cell_rank_Num_le: "cell_rank (Num b) \<le> cell_rank (Num a) \<longleftrightarrow> b \<le> a"
  by (auto simp: cell_rank_def less_eq_prod_def)

lemma descending_nth:
  assumes "descending vals" and "m < n" and "n < length vals"
  shows "(\<forall>a b. vals ! m = Num a \<longrightarrow> vals ! n = Num b \<longrightarrow> b \<le> a) \<and>
         (vals ! m = Null \<longrightarrow> vals ! n = Null)"
proof -
  have "precedes (vals ! m) (vals ! n)"
    using assms by (simp add: descending_def sorted_wrt_nth_less)
  then show ?thesis by (auto simp: precedes_def cell_rank_Num_le)
qed

lemma grouped_table_rows:
  assumes "grouped_table data gs as by top_n = Inr out"
    and "0 \<le> top_n" and "''index'' \<notin> set (gs @ map agg_name as)"
  shows "int (length (rows out)) \<le> top_n \<and>
     columns out = gs @ map agg_name as \<and>
     (\<exists>i. index_of by (columns out) = Some i \<and> descending (column_vals out i))"
proof -
  from grouped_table_D [OF assms(1) assms(3)]
  obtain sorted_rows :: "(nat \<times> cell list) list" and i where
    co: "columns out = gs @ map agg_name as" and
    i: "index_of by (columns out) = Some i" and
    ds: "descending (map (\<lambda>(l, r). r ! i) sorted_rows)" and
    ro: "rows out = head top_n (map snd sorted_rows)"
    by blast
  have ro': "rows out = take (nat top_n) (map snd sorted_rows)"
    using assms(2) by (simp add: ro head_def)
  have "length (rows out) \<le> nat top_n" by (simp add: ro')
  then have len: "int (length (rows out)) \<le> top_n" using assms(2) by linarith
  have "column_vals out i = take (nat top_n) (map (\<lambda>(l, r). r ! i) sorted_rows)"
    by (simp add: column_vals_def ro' take_map comp_def case_prod_beta)
  then have "descending (column_vals out i)"
    using ds by (simp add: descending_def)
  then show ?thesis using len co i by blast
qed

text \<open>
  Claim C5, amended. When \<^verbatim>\<open>grouped_table\<close> returns a frame for a limit \<open>top_n\<close> that
  is not negative and no group-by column or aggregation output is named \<^verbatim>\<open>index\<close>, the
  frame has at most \<open>top_n\<close> rows (at most 10 with the default), its columns are the
  group-by columns followed by the names of the aggregations, and the sort column is in
  descending order with missing values last: of two numbers in it the later one is not
  the larger, and nothing follows a missing value but missing values.
\<close>

theorem grouped_table_top_n:
  assumes "grouped_table data group_by_columns aggregation_columns sort_by_column top_n = Inr out"
    and "0 \<le> top_n"
    and "''index'' \<notin> set (group_by_columns @ map agg_name aggregation_columns)"
  shows "int (length (rows out)) \<le> top_n \<and>
     columns out = group_by_columns @ map agg_name aggregation_columns \<and>
     (\<exists>i. index_of sort_by_column (columns out) = Some i \<and>
        descending (column_vals out i) \<and>
        (\<forall>m n. m < n \<longrightarrow> n < length (rows out) \<longrightarrow>
           (\<forall>a b. column_vals out i ! m = Num a \<longrightarrow> column_vals out i ! n = Num b \<longrightarrow> b \<le> a) \<and>
           (column_vals out i ! m = Null \<longrightarrow> column_vals out i ! n = Null))) \<and>
     (\<forall>out'. grouped_table_default data group_by_columns aggregation_columns sort_by_column = Inr out'
        \<longrightarrow> length (rows out') \<le> 10)"
proof -
  from grouped_table_rows [OF assms] obtain i where
    len: "int (length (rows out)) \<le> top_n" and
    co: "columns out = group_by_columns @ map agg_name aggregation_columns" and
    i: "index_of sort_by_column (columns out) = Some i" and
    ds: "descending (column_vals out i)"
    by blast
  have pairs: "\<forall>m n. m < n \<longrightarrow> n < length (rows out) \<longrightarrow>
           (\<forall>a b. column_vals out i ! m = Num a \<longrightarrow> column_vals out i ! n = Num b \<longrightarrow> b \<le> a) \<and>
           (column_vals out i ! m = Null \<longrightarrow> column_vals out i ! n = Null)"
  proof (intro allI impI)
    fix m n assume "m < n" "n < length (rows out)"
    then have "n < length (column_vals out i)" by (simp add: column_vals_def)
    from descending_nth [OF ds \<open>m < n\<close> this]
    show "(\<forall>a b. column_vals out i ! m = Num a \<longrightarrow> column_vals out i ! n = Num b \<longrightarrow> b \<le> a) \<and>
           (column_vals out i ! m = Null \<longrightarrow> column_vals out i ! n = Null)" .
  qed
  have dflt: "length (rows out') \<le> 10"
    if "grouped_table_default data group_by_columns aggregation_columns sort_by_column = Inr out'"
    for out'
  proof -
    have "grouped_table data group_by_columns aggregation_columns sort_by_column 10 = Inr out'"
      using that by (simp add: grouped_table_default_def)
    from grouped_table_rows [OF this _ assms(3)] show ?thesis by simp
  qed
  show ?thesis using len co i ds pairs dflt by blast
qed

theorem grouped_table_top_n_witness:
  "grouped_table harvest [''anio''] total_by_year ''total'' 1 =
     Inr \<lparr>header = [(''anio'', NumberD), (''total'', NumberD)], rows = [[Num 2020, Num 12]]\<rparr> \<and>
   int (length (rows \<lparr>header = [(''anio'', NumberD), (''total'', NumberD)],
                       rows = [[Num 2020, Num 12]]\<rparr>)) \<le> 1 \<and>
   columns \<lparr>header = [(''anio'', NumberD), (''total'', NumberD)], rows = [[Num 2020, Num 12]]\<rparr> =
     [''anio''] @ map agg_name total_by_year"
proof -
  have h2: "(0 :: int) \<le> 1" by simp
  have h3: "''index'' \<notin> set ([''anio''] @ map agg_name total_by_year)"
    by (simp add: total_by_year_def agg_name_def)
  from grouped_table_top_n [OF harvest_top_1 h2 h3] harvest_top_1
  show ?thesis by blast
qed

theorem grouped_table_negative_limit_counterexample:
  "grouped_table harvest [''anio''] total_by_year ''total'' (- 1) =
     Inr \<lparr>header = [(''anio'', NumberD), (''total'', NumberD)], rows = [[Num 2020, Num 12]]\<rparr> \<and>
   \<not> int (length [[Num 2020, Num 12]]) \<le> - 1 \<and>
   grouped_table harvest [''anio''] index_by_year ''index'' 10 =
     Inr \<lparr>header = [(''level_0'', NumberD), (''anio'', NumberD)],
          rows = [[Num 0, Num 2020], [Num 1, Num 2021]]\<rparr>"
  using harvest_top_minus_1 harvest_index by simp

text \<open>
  Claim C3 at a frame whose text column \<^verbatim>\<open>codigo\<close> also holds a number: the text values
  are normalised, and the number 1 comes back as a missing value instead of passing
  through. A column of dtype \<^verbatim>\<open>object\<close> that holds numbers only makes the call raise
  \<^verbatim>\<open>AttributeError\<close>.
\<close>

theorem fix_string_case_mixed_column:
  "fix_string_case (\<lambda>s. s) codes =
     (\<lparr>header = [(''codigo'', ObjectD), (''cultivo'', ObjectD)],
       rows = [[Str ''Ab'', Str ''Maiz''], [Null, Str ''Yuca'']]\<rparr>, None) \<and>
   snd (fix_string_case (\<lambda>s. s) numbers_as_objects) = Some AttributeError"
  by code_simp

lemma manager_geocode_dataframe_managed:
  "managed (fst (manager_geocode_dataframe geocode m arg)) = managed m"
  by (simp add: manager_geocode_dataframe_def Let_def split: option.splits sum.splits)

text \<open>
  Claim C7 at a manager whose managed frame is \<open>cities\<close>, called without an argument:
  the frame returned is a new object with the key and the three merged columns, while the
  managed frame has only gained the column \<^verbatim>\<open>geolocalizacion\<close> and \<^verbatim>\<open>self.dataframe\<close>
  still refers to it.
\<close>

theorem manager_geocode_dataframe_managed_frame:
  "snd (manager_geocode_dataframe atlas office None) = Inr 1 \<and>
   managed (fst (manager_geocode_dataframe atlas office None)) = Some 0 \<and>
   store (fst (manager_geocode_dataframe atlas office None)) 0 = Some cities_keyed \<and>
   store (fst (manager_geocode_dataframe atlas office None)) 1 = Some cities_enriched \<and>
   ''latitude'' \<notin> set (columns cities_keyed) \<and> ''latitude'' \<in> set (columns cities_enriched)"
proof -
  have out: "geocode_dataframe atlas cities =
      \<lparr>frame_after = cities_keyed, returned = Inr cities_enriched,
       lookups = [Str ''Bogota, Cundinamarca, Colombia'', Str ''Cali, Valle, Colombia''],
       printed = []\<rparr>"
    by (simp add: cities_def cities_keyed_def cities_enriched_def columns_def dtypes_def
      has_required_columns_def
      geocode_dataframe_def enrich_def location_keys_def column_vals_def series_add_text_def
      series_add_def set_column_def series_def unique_def location_data_def location_frame_def
      merge_left_def enumerate_eq_zip suffixed_def merge_rows_def atlas_def
      latitude_def longitude_def infer_dtype_def is_text_def Let_def)
  have req: "has_required_columns cities" by (rule required_cities)
  have cols: "''latitude'' \<notin> set (columns cities_keyed) \<and> ''latitude'' \<in> set (columns cities_enriched)"
    by (simp add: cities_keyed_def cities_enriched_def columns_def)
  show ?thesis
    using cols by (simp add: manager_geocode_dataframe_def office_def out req Let_def)
qed

lemma text_or_null_cases: "text_or_null vals \<Longrightarrow> v \<in> set vals \<Longrightarrow> v = Null \<or> (\<exists>s. v = Str s)"
  by (cases v) (auto simp: text_or_null_def list_all_iff is_text_def)

lemma str_accessor_ok_text: "text_or_null vals \<Longrightarrow> str_accessor_ok vals"
  by (auto simp: str_accessor_ok_def text_or_null_def list_all_iff)

lemma str_method_text:
  assumes "text_or_null vals"
  shows "str_method f vals = Inr (map (\<lambda>v. case v of Str s \<Rightarrow> Str (f s) | _ \<Rightarrow> v) vals)"
proof -
  have "map (\<lambda>v. case v of Str s \<Rightarrow> Str (f s) | _ \<Rightarrow> Null) vals =
        map (\<lambda>v. case v of Str s \<Rightarrow> Str (f s) | _ \<Rightarrow> v) vals"
    by (rule map_cong) (use text_or_null_cases [OF assms] in \<open>auto split: cell.splits\<close>)
  then show ?thesis using str_accessor_ok_text [OF assms] by (simp add: str_method_def)
qed

lemma text_or_null_map:
  "text_or_null vals \<Longrightarrow> text_or_null (map (\<lambda>v. case v of Str s \<Rightarrow> Str (f s) | _ \<Rightarrow> v) vals)"
  by (auto simp: text_or_null_def list_all_iff is_text_def split: cell.splits)

lemma column_vals_set_column:
  assumes "wf_table df" and "length vals = length (rows df)"
    and "index_of name (columns df) = Some i"
  shows "column_vals (set_column df name dt vals) i = vals"
proof -
  have "name \<in> set (columns df)"
    using assms(3) index_of_None [of name "columns df"] by auto
  then have "index_of name (columns (set_column df name dt vals)) = Some i"
    using assms(3) by (simp add: columns_set_column)
  then show ?thesis
    using series_set_column [OF assms(1) assms(2), of name dt] by (simp add: series_def)
qed

lemma set_column_twice:
  assumes "length v1 = length (rows df)" and "length v2 = length (rows df)"
    and "index_of name (columns df) = Some i"
  shows "set_column (set_column df name d1 v1) name d2 v2 = set_column df name d2 v2"
proof -
  have mem: "name \<in> set (columns df)"
    using assms(3) index_of_None [of name "columns df"] by auto
  then have i': "index_of name (columns (set_column df name d1 v1)) = Some i"
    using assms(3) by (simp add: columns_set_column)
  have rows_eq: "map (\<lambda>(r, v). r[i := v]) (zip (map (\<lambda>(r, v). r[i := v]) (zip (rows df) v1)) v2) =
      map (\<lambda>(r, v). r[i := v]) (zip (rows df) v2)"
    by (rule nth_equalityI) (use assms(1,2) in simp_all)
  show ?thesis
    unfolding set_column_def [of "set_column df name d1 v1"] i'
    by (simp add: set_column_def assms(3) rows_eq)
qed

lemma fix_column_text:
  assumes wf: "wf_table df" and i: "index_of column (columns df) = Some i"
    and obj: "dtypes df ! i = ObjectD" and tx: "text_or_null (column_vals df i)"
  shows "fix_column unidecode df column =
     (set_column df column ObjectD (map (normalized unidecode) (column_vals df i)), None)"
proof -
  let ?vals = "column_vals df i"
  let ?a = "map (remove_accents unidecode) ?vals"
  let ?l = "map (\<lambda>v. case v of Str s \<Rightarrow> Str (py_lower s) | _ \<Rightarrow> v) ?a"
  let ?c = "map (\<lambda>v. case v of Str s \<Rightarrow> Str (py_capitalize s) | _ \<Rightarrow> v) ?l"
  let ?df1 = "set_column df column (infer_dtype ?a) ?a"
  let ?df2 = "set_column ?df1 column ObjectD ?l"
  have len: "length ?vals = length (rows df)" by (simp add: column_vals_def)
  have ra: "remove_accents unidecode = (\<lambda>v. case v of Str s \<Rightarrow> Str (unidecode s) | _ \<Rightarrow> v)"
    by (simp add: remove_accents_def fun_eq_iff)
  have ta: "text_or_null ?a" unfolding ra by (rule text_or_null_map [OF tx])
  have tl: "text_or_null ?l" by (rule text_or_null_map [OF ta])
  have v1: "column_vals ?df1 i = ?a"
    by (rule column_vals_set_column [OF wf _ i]) (simp add: len)
  have wf1: "wf_table ?df1" by (rule wf_set_column [OF wf]) (simp add: len)
  have i1: "index_of column (columns ?df1) = Some i"
    using i index_of_None [of column "columns df"] by (simp add: columns_set_column)
  have l1: "length (rows ?df1) = length (rows df)"
    by (simp add: length_rows_set_column len)
  have v2: "column_vals ?df2 i = ?l"
    by (rule column_vals_set_column [OF wf1 _ i1]) (simp add: l1 len)
  have e2: "?df2 = set_column df column ObjectD ?l"
    by (rule set_column_twice [OF _ _ i]) (simp_all add: len)
  have e3: "set_column ?df2 column ObjectD ?c = set_column df column ObjectD ?c"
    unfolding e2 by (rule set_column_twice [OF _ _ i]) (simp_all add: len)
  have comp: "?c = map (normalized unidecode) ?vals"
    by (simp add: ra normalized_def comp_def split: cell.splits cong: map_cong)
  have "fix_column unidecode df column = (set_column ?df2 column ObjectD ?c, None)"
    unfolding fix_column_def i option.case Let_def
    by (simp only: obj v1 str_method_text [OF ta] sum.case v2 str_method_text [OF tl]) simp
  then have "fix_column unidecode df column = (set_column df column ObjectD ?c, None)"
    by (simp only: e3)
  then show ?thesis by (simp only: comp)
qed

lemma zip_map_zip:
  "zip h (map g (zip h r)) = map (\<lambda>p. (fst p, g p)) (zip h r)"
proof (induction h arbitrary: r)
  case Nil
  then show ?case by simp
next
  case (Cons a h)
  then show ?case by (cases r) simp_all
qed

lemma normalize_columns_compose:
  assumes "S \<inter> T = {}"
  shows "normalize_columns u S (normalize_columns u T df) = normalize_columns u (S \<union> T) df"
proof -
  have "map (\<lambda>(c, v). if fst c \<in> S \<and> snd c = ObjectD then normalized u v else v)
          (zip (header df)
             (map (\<lambda>(c, v). if fst c \<in> T \<and> snd c = ObjectD then normalized u v else v)
                (zip (header df) r))) =
        map (\<lambda>(c, v). if fst c \<in> S \<union> T \<and> snd c = ObjectD then normalized u v else v)
          (zip (header df) r)" for r
    unfolding zip_map_zip using assms by (auto simp: case_prod_beta)
  then show ?thesis by (simp add: normalize_columns_def)
qed

lemma nth_row_normalized:
  assumes "length r = length h" and "p < length h"
  shows "map (\<lambda>(c, v). if fst c \<in> S \<and> snd c = ObjectD then normalized u v else v) (zip h r) ! p =
         (if fst (h ! p) \<in> S \<and> snd (h ! p) = ObjectD then normalized u (r ! p) else r ! p)"
  using assms by simp

lemma wf_normalize_columns:
  assumes "wf_table df"
  shows "wf_table (normalize_columns u S df)"
  using assms by (auto simp: wf_table_def normalize_columns_def columns_def list_all_iff)

lemma column_vals_normalize_columns:
  assumes "wf_table df" and "p < length (header df)"
  shows "column_vals (normalize_columns u S df) p =
     map (\<lambda>v. if fst (header df ! p) \<in> S \<and> snd (header df ! p) = ObjectD
               then normalized u v else v) (column_vals df p)"
proof (rule nth_equalityI)
  show "length (column_vals (normalize_columns u S df) p) =
      length (map (\<lambda>v. if fst (header df ! p) \<in> S \<and> snd (header df ! p) = ObjectD
               then normalized u v else v) (column_vals df p))"
    by (simp add: column_vals_def normalize_columns_def)
next
  fix n assume "n < length (column_vals (normalize_columns u S df) p)"
  then have n: "n < length (rows df)" by (simp add: column_vals_def normalize_columns_def)
  have "length (rows df ! n) = length (header df)" by (rule wf_table_rows [OF assms(1) n])
  from nth_row_normalized [OF this assms(2), of S u]
  show "column_vals (normalize_columns u S df) p ! n =
      map (\<lambda>v. if fst (header df ! p) \<in> S \<and> snd (header df ! p) = ObjectD
               then normalized u v else v) (column_vals df p) ! n"
    using n by (simp add: column_vals_def normalize_columns_def)
qed

lemma text_or_null_normalized:
  "text_or_null vals \<Longrightarrow> text_or_null (map (\<lambda>v. if b then normalized u v else v) vals)"
  by (auto simp: text_or_null_def list_all_iff is_text_def normalized_def split: cell.splits)

lemma text_columns_normalize_columns:
  assumes "wf_table df" and "text_columns df"
  shows "text_columns (normalize_columns u S df)"
proof -
  have "text_or_null (column_vals (normalize_columns u S df) p)"
    if "p < length (header df)" "dtypes df ! p = ObjectD" for p
  proof -
    have "text_or_null (column_vals df p)"
      using assms(2) that by (simp add: text_columns_def list_all_iff)
    then show ?thesis
      unfolding column_vals_normalize_columns [OF assms(1) that(1)]
      by (rule text_or_null_normalized)
  qed
  then show ?thesis
    by (simp add: text_columns_def list_all_iff) (simp add: normalize_columns_def dtypes_def)
qed

lemma normalize_columns_single:
  assumes wf: "wf_table df" and i: "index_of c (columns df) = Some i"
  shows "normalize_columns u {c} df =
     (if dtypes df ! i = ObjectD
      then set_column df c ObjectD (map (normalized u) (column_vals df i)) else df)"
proof -
  have il: "i < length (header df)"
    using index_of_Some [OF i] by (simp add: columns_def)
  have "map fst (header df) ! i = c"
    using index_of_Some [OF i] by (simp add: columns_def)
  then have ci: "fst (header df ! i) = c" using il by simp
  have d: "distinct (map fst (header df))" using wf by (simp add: wf_table_def columns_def)
  have only: "fst (header df ! p) = c \<longleftrightarrow> p = i" if "p < length (header df)" for p
    using d il ci that by (metis length_map nth_eq_iff_index_eq nth_map)
  have row: "map (\<lambda>(c', v). if fst c' \<in> {c} \<and> snd c' = ObjectD then normalized u v else v)
               (zip (header df) r) =
             (if dtypes df ! i = ObjectD then r[i := normalized u (r ! i)] else r)"
    if "length r = length (header df)" for r
  proof (rule nth_equalityI)
    show "length (map (\<lambda>(c', v). if fst c' \<in> {c} \<and> snd c' = ObjectD then normalized u v else v)
               (zip (header df) r)) =
          length (if dtypes df ! i = ObjectD then r[i := normalized u (r ! i)] else r)"
      using that by simp
  next
    fix p assume "p < length (map (\<lambda>(c', v). if fst c' \<in> {c} \<and> snd c' = ObjectD then normalized u v else v)
               (zip (header df) r))"
    then have p: "p < length (header df)" using that by simp
    show "map (\<lambda>(c', v). if fst c' \<in> {c} \<and> snd c' = ObjectD then normalized u v else v)
               (zip (header df) r) ! p =
          (if dtypes df ! i = ObjectD then r[i := normalized u (r ! i)] else r) ! p"
      unfolding nth_row_normalized [OF that p]
      using only [OF p] p il that by (auto simp: dtypes_def nth_list_update)
  qed
  have rows_n: "rows (normalize_columns u {c} df) =
      map (\<lambda>r. if dtypes df ! i = ObjectD then r[i := normalized u (r ! i)] else r) (rows df)"
  proof -
    have "map (\<lambda>r. map (\<lambda>(c', v). if fst c' \<in> {c} \<and> snd c' = ObjectD then normalized u v else v)
               (zip (header df) r)) (rows df) =
          map (\<lambda>r. if dtypes df ! i = ObjectD then r[i := normalized u (r ! i)] else r) (rows df)"
      by (rule map_cong [OF refl], rule row) (use wf in \<open>simp add: wf_table_def list_all_iff\<close>)
    then show ?thesis by (simp only: normalize_columns_def table.simps)
  qed
  show ?thesis
  proof (cases "dtypes df ! i = ObjectD")
    case True
    then have hi: "header df ! i = (c, ObjectD)"
      using ci il by (simp add: dtypes_def prod_eq_iff)
    then have h: "(header df)[i := (c, ObjectD)] = header df"
      by (metis list_update_id)
    have z: "zip (rows df) (map (normalized u) (column_vals df i)) =
        map (\<lambda>r. (r, normalized u (r ! i))) (rows df)"
      by (rule zip_map_self) (simp add: column_vals_def)
    have "set_column df c ObjectD (map (normalized u) (column_vals df i)) =
        \<lparr>header = header df, rows = map (\<lambda>r. r[i := normalized u (r ! i)]) (rows df)\<rparr>"
      by (simp add: set_column_def i h z comp_def)
    moreover have "normalize_columns u {c} df =
        \<lparr>header = header df, rows = map (\<lambda>r. r[i := normalized u (r ! i)]) (rows df)\<rparr>"
      using rows_n True by (intro table.equality) (simp_all add: normalize_columns_def)
    ultimately show ?thesis using True by simp
  next
    case False
    then have "normalize_columns u {c} df = \<lparr>header = header df, rows = rows df\<rparr>"
      using rows_n by (intro table.equality) (simp_all add: normalize_columns_def)
    then show ?thesis using False by simp
  qed
qed

lemma fix_column_normalizes:
  assumes wf: "wf_table df" and tc: "text_columns df" and c: "c \<in> set (columns df)"
  shows "fix_column u df c = (normalize_columns u {c} df, None)"
proof -
  from index_of_mem [OF c] obtain i where i: "index_of c (columns df) = Some i" by blast
  have il: "i < length (header df)" using index_of_Some [OF i] by (simp add: columns_def)
  show ?thesis
  proof (cases "dtypes df ! i = ObjectD")
    case True
    then have "text_or_null (column_vals df i)"
      using tc il by (simp add: text_columns_def list_all_iff)
    from fix_column_text [OF wf i True this, of u] show ?thesis
      by (simp add: normalize_columns_single [OF wf i] True)
  next
    case False
    then show ?thesis
      by (simp add: normalize_columns_single [OF wf i] fix_column_def i)
  qed
qed

lemma fix_columns_normalizes:
  assumes "wf_table df" and "text_columns df" and "distinct cs" and "set cs \<subseteq> set (columns df)"
  shows "fix_columns u df cs = (normalize_columns u (set cs) df, None)"
  using assms
proof (induction cs arbitrary: df)
  case Nil
  have "map (\<lambda>(c, v). if fst c \<in> {} \<and> snd c = ObjectD then normalized u v else v)
          (zip (header df) r) = r" if "length r = length (header df)" for r
    by (rule nth_equalityI) (use that in simp_all)
  then have "map (\<lambda>r. map (\<lambda>(c, v). if fst c \<in> {} \<and> snd c = ObjectD then normalized u v else v)
          (zip (header df) r)) (rows df) = map (\<lambda>r. r) (rows df)"
    using Nil.prems(1) by (intro map_cong) (auto simp: wf_table_def list_all_iff)
  then have "normalize_columns u {} df = df"
    by (simp add: normalize_columns_def)
  then show ?case by simp
next
  case (Cons c cs)
  let ?df1 = "normalize_columns u {c} df"
  have c: "c \<in> set (columns df)" using Cons.prems(4) by simp
  have step: "fix_column u df c = (?df1, None)"
    by (rule fix_column_normalizes [OF Cons.prems(1) Cons.prems(2) c])
  have wf1: "wf_table ?df1" by (rule wf_normalize_columns [OF Cons.prems(1)])
  have tc1: "text_columns ?df1"
    by (rule text_columns_normalize_columns [OF Cons.prems(1) Cons.prems(2)])
  have cols1: "columns ?df1 = columns df" by (simp add: normalize_columns_def columns_def)
  have "fix_columns u ?df1 cs = (normalize_columns u (set cs) ?df1, None)"
    by (rule Cons.IH [OF wf1 tc1]) (use Cons.prems(3,4) cols1 in auto)
  moreover have "normalize_columns u (set cs) ?df1 = normalize_columns u (set cs \<union> {c}) df"
    by (rule normalize_columns_compose) (use Cons.prems(3) in auto)
  ultimately show ?case using step by simp
qed

text \<open>
  On a frame whose columns of dtype \<^verbatim>\<open>object\<close> hold only text and missing values the
  Text Normalizer raises nothing and returns the frame with the same header and rows, every
  text value replaced by its capitalised, lower-cased transliteration and every other cell
  as it was.
\<close>

lemma fix_string_case_text_columns:
  assumes "wf_table df" and "text_columns df"
  shows "fix_string_case u df = (normalize_columns u (set (columns df)) df, None)"
  unfolding fix_string_case_def
  by (rule fix_columns_normalizes [OF assms]) (use assms(1) in \<open>simp_all add: wf_table_def\<close>)

lemma add_text_text_or_null:
  assumes "text_or_null xs"
  shows "collect (map (\<lambda>x. add_cell x (Str s)) xs) =
         Inr (map (\<lambda>x. case x of Str a \<Rightarrow> Str (a @ s) | _ \<Rightarrow> Null) xs)"
proof -
  have "map (\<lambda>x. add_cell x (Str s)) xs =
        map Inr (map (\<lambda>x. case x of Str a \<Rightarrow> Str (a @ s) | _ \<Rightarrow> Null) xs)"
    unfolding map_map
    by (rule map_cong) (use text_or_null_cases [OF assms] in \<open>auto split: cell.splits\<close>)
  then show ?thesis by (simp only: collect_map_Inr)
qed

text \<open>
  The key column can be built whenever \<^verbatim>\<open>municipio\<close> and \<^verbatim>\<open>departamento\<close> are
  columns of text (dtype \<^verbatim>\<open>object\<close>, every value a text or missing).
\<close>

lemma location_keys_text_columns:
  assumes i: "index_of ''municipio'' (columns df) = Some i"
    and j: "index_of ''departamento'' (columns df) = Some j"
    and obj: "dtypes df ! i = ObjectD"
    and ti: "text_or_null (column_vals df i)" and tj: "text_or_null (column_vals df j)"
  shows "location_keys df = Inr (map (\<lambda>r. row_key (r ! i) (r ! j)) (rows df))"
proof -
  let ?s1 = "map (\<lambda>x. case x of Str a \<Rightarrow> Str (a @ '', '') | _ \<Rightarrow> Null) (column_vals df i)"
  let ?s2 = "map (\<lambda>r. case r ! i of
                        Str a \<Rightarrow> (case r ! j of Str b \<Rightarrow> Str (a @ '', '' @ b) | _ \<Rightarrow> Null)
                      | _ \<Rightarrow> Null) (rows df)"
  have s1: "series_add_text (dtypes df ! i) (column_vals df i) '', '' = Inr ?s1"
    using add_text_text_or_null [OF ti] by (simp add: series_add_text_def obj)
  have "map (\<lambda>(x, y). add_cell x y) (zip ?s1 (column_vals df j)) = map Inr ?s2"
  proof (rule nth_equalityI)
    show "length (map (\<lambda>(x, y). add_cell x y) (zip ?s1 (column_vals df j))) = length (map Inr ?s2)"
      by (simp add: column_vals_def)
  next
    fix n assume "n < length (map (\<lambda>(x, y). add_cell x y) (zip ?s1 (column_vals df j)))"
    then have n: "n < length (rows df)" by (simp add: column_vals_def)
    then have "rows df ! n ! i \<in> set (column_vals df i)" "rows df ! n ! j \<in> set (column_vals df j)"
      by (auto simp: column_vals_def)
    then have "(rows df ! n ! i = Null \<or> (\<exists>a. rows df ! n ! i = Str a)) \<and>
               (rows df ! n ! j = Null \<or> (\<exists>b. rows df ! n ! j = Str b))"
      using text_or_null_cases [OF ti] text_or_null_cases [OF tj] by blast
    then show "map (\<lambda>(x, y). add_cell x y) (zip ?s1 (column_vals df j)) ! n = map Inr ?s2 ! n"
      using n by (auto simp: column_vals_def)
  qed
  then have s2: "series_add ?s1 (column_vals df j) = Inr ?s2"
    by (simp only: series_add_def collect_map_Inr)
  have t2: "text_or_null ?s2"
    by (auto simp: text_or_null_def list_all_iff is_text_def split: cell.splits)
  have "series_add_text ObjectD ?s2 '', Colombia'' =
      Inr (map (\<lambda>x. case x of Str a \<Rightarrow> Str (a @ '', Colombia'') | _ \<Rightarrow> Null) ?s2)"
    using add_text_text_or_null [OF t2] by (simp add: series_add_text_def)
  also have "map (\<lambda>x. case x of Str a \<Rightarrow> Str (a @ '', Colombia'') | _ \<Rightarrow> Null) ?s2 =
      map (\<lambda>r. row_key (r ! i) (r ! j)) (rows df)"
    by (simp add: row_key_def split: cell.splits)
  finally have k: "series_add_text ObjectD ?s2 '', Colombia'' =
      Inr (map (\<lambda>r. row_key (r ! i) (r ! j)) (rows df))" .
  show ?thesis
    by (simp only: location_keys_def i j option.case s1 s2 sum.case k)
qed

lemma those_Some: "(\<forall>x \<in> set xs. x \<noteq> None) \<Longrightarrow> \<exists>ys. those xs = Some ys"
proof (induction xs)
  case Nil
  then show ?case by simp
next
  case (Cons a xs)
  then show ?case by (cases a) auto
qed

lemma indices_of_Some:
  assumes "set names \<subseteq> set cols"
  shows "\<exists>idx. indices_of names cols = Some idx"
  unfolding indices_of_def
  by (rule those_Some) (use assms index_of_None [of _ cols] in auto)

text \<open>
  \<^verbatim>\<open>groupby(...).agg(...).reset_index()\<close> raises nothing when there is a group-by column
  and an aggregation, all columns named exist, and the output names are distinct.
\<close>

lemma groupby_agg_returns:
  assumes "gs \<noteq> []" and "set gs \<subseteq> set (columns data)" and "as \<noteq> []"
    and "set (map agg_source as) \<subseteq> set (columns data)"
    and "distinct (gs @ map agg_name as)"
  shows "\<exists>grouped. groupby_agg data gs as = Inr grouped"
proof -
  from indices_of_Some [OF assms(2)] obtain gidx where
    g: "indices_of gs (columns data) = Some gidx" by blast
  from indices_of_Some [OF assms(4)] obtain sidx where
    s: "indices_of (map agg_source as) (columns data) = Some sidx" by blast
  show ?thesis
    using assms(1,3,5) by (simp add: groupby_agg_def g s Let_def)
qed

text \<open>
  Given the grouped frame, \<^verbatim>\<open>grouped_table\<close> returns a frame when the sort column is
  one of the output columns, no output column is named \<^verbatim>\<open>index\<close>, and the sort column
  does not mix text with numbers.
\<close>

lemma grouped_table_returns:
  assumes g: "groupby_agg data gs as = Inr grouped"
    and srt: "index_of by (gs @ map agg_name as) = Some i"
    and noidx: "''index'' \<notin> set (gs @ map agg_name as)"
    and homo: "list_all (\<lambda>r. \<not> is_text (r ! i)) (rows grouped) \<or>
               list_all (\<lambda>r. r ! i = Null \<or> is_text (r ! i)) (rows grouped)"
  shows "\<exists>out. grouped_table data gs as by top_n = Inr out"
proof -
  let ?names = "gs @ map agg_name as"
  have cg: "columns grouped = ?names" by (rule columns_groupby_agg(1) [OF g])
  then have "length ?names = length (header grouped)"
    by (metis columns_def length_map)
  then obtain renamed where a: "assign_columns grouped ?names = Inr renamed"
    by (simp add: assign_columns_def)
  have cr: "columns renamed = ?names" and rr: "rows renamed = rows grouped"
    using assign_columns_D [OF a] by simp_all
  have ir: "index_of by (columns renamed) = Some i" using srt cr by simp
  have mem: "r \<in> set (rows grouped)" if "(l, r) \<in> set (enumerate 0 (rows grouped))" for l r
    using that by (auto simp: in_set_enumerate_eq)
  have no_mix: "\<not> ((\<exists>(l, r) \<in> set (filter (\<lambda>(l, r). r ! i \<noteq> Null) (enumerate 0 (rows grouped))).
                      is_text (r ! i)) \<and>
                 (\<exists>(l, r) \<in> set (filter (\<lambda>(l, r). r ! i \<noteq> Null) (enumerate 0 (rows grouped))).
                      \<not> is_text (r ! i)))"
    using homo mem by (fastforce simp: list_all_iff)
  obtain sorted_rows where s: "sort_values_desc renamed by = Inr sorted_rows"
    using no_mix by (simp add: sort_values_desc_def ir rr Let_def)
  have "''index'' \<notin> set (map fst (header renamed))"
    using noidx cr by (simp add: columns_def)
  then obtain with_index where
    r: "reset_index (header renamed) sorted_rows = Inr with_index" and
    hw: "header with_index = (''index'', NumberD) # header renamed"
    by (simp add: reset_index_def Let_def)
  obtain sorted_data where d: "drop_column with_index ''index'' = Inr sorted_data"
    by (simp add: drop_column_def columns_def hw)
  show ?thesis
    by (simp add: grouped_table_def g a s r d Let_def)
qed

text \<open>
  \<^verbatim>\<open>fix_string_case\<close> works on the object it is given: afterwards the reference denotes
  the frame as the call left it, and that reference is what a normal return gives back.
\<close>

lemma manager_fix_string_case_in_place:
  assumes "store m a = Some df"
  shows "store (fst (manager_fix_string_case unidecode m a)) a =
           Some (fst (fix_string_case unidecode df)) \<and>
         managed (fst (manager_fix_string_case unidecode m a)) = managed m \<and>
         (snd (fix_string_case unidecode df) = None \<longrightarrow>
            snd (manager_fix_string_case unidecode m a) = Inr a)"
  using assms by (simp add: manager_fix_string_case_def Let_def split: prod.splits)

end
